theory Spec2Isabelle
  imports Main
begin

section \<open>The solver-engine interface\<close>

text \<open>
  Every script of the repository builds a constraint model through the same few calls
  of the engine's Python interface (\<^verbatim>\<open>cp_model.CpModel\<close>), hands it to the engine and
  reads values back. The embedding keeps the model as data: the list of variable domains
  in creation order, the list of posted constraints in posting order and the optional
  objective. A variable is the index of its domain; the name argument of the variable
  constructors only labels printed output and is left out. An assignment is the list of
  the variables' values, read by index.
\<close>

datatype linexpr =
    Var nat
  | Const int
  | Add linexpr linexpr
  | Sub linexpr linexpr
  | Mul linexpr int

datatype rel = EQ | NE | LE | GE

datatype literal = Pos nat | Neg nat

datatype interval_var = IntervalVar (iv_start: nat) (iv_size: int) (iv_end: nat)

datatype constr =
    Linear linexpr rel linexpr
  | AllDifferent "linexpr list"
  | Interval interval_var
  | NoOverlap "interval_var list"
  | MaxEquality linexpr "linexpr list"
  | ExactlyOne "literal list"
  | AtMostOne "literal list"
  | BoolOr "literal list"
  | OnlyEnforceIf constr literal

record cp_model =
  domains :: "(int \<times> int) list"
  constraints :: "constr list"
  objective :: "linexpr option"

definition CpModel :: cp_model where
  "CpModel = \<lparr>domains = [], constraints = [], objective = None\<rparr>"

definition new_int_var :: "int \<Rightarrow> int \<Rightarrow> cp_model \<Rightarrow> nat \<times> cp_model" where
  "new_int_var lb ub m = (length (domains m), m\<lparr>domains := domains m @ [(lb, ub)]\<rparr>)"

definition new_bool_var :: "cp_model \<Rightarrow> nat \<times> cp_model" where
  "new_bool_var m = new_int_var 0 1 m"

definition add :: "constr \<Rightarrow> cp_model \<Rightarrow> cp_model" where
  "add c m = m\<lparr>constraints := constraints m @ [c]\<rparr>"

definition new_interval_var :: "nat \<Rightarrow> int \<Rightarrow> nat \<Rightarrow> cp_model \<Rightarrow> interval_var \<times> cp_model" where
  "new_interval_var s d e m = (IntervalVar s d e, add (Interval (IntervalVar s d e)) m)"

definition minimize :: "linexpr \<Rightarrow> cp_model \<Rightarrow> cp_model" where
  "minimize e m = m\<lparr>objective := Some e\<rparr>"

subsection \<open>What an assignment satisfies\<close>

fun expr_value :: "int list \<Rightarrow> linexpr \<Rightarrow> int" where
  "expr_value a (Var v) = a ! v"
| "expr_value a (Const c) = c"
| "expr_value a (Add e f) = expr_value a e + expr_value a f"
| "expr_value a (Sub e f) = expr_value a e - expr_value a f"
| "expr_value a (Mul e c) = expr_value a e * c"

fun rel_holds :: "rel \<Rightarrow> int \<Rightarrow> int \<Rightarrow> bool" where
  "rel_holds EQ x y = (x = y)"
| "rel_holds NE x y = (x \<noteq> y)"
| "rel_holds LE x y = (x \<le> y)"
| "rel_holds GE x y = (x \<ge> y)"

fun lit_holds :: "int list \<Rightarrow> literal \<Rightarrow> bool" where
  "lit_holds a (Pos v) = (a ! v \<noteq> 0)"
| "lit_holds a (Neg v) = (a ! v = 0)"

definition apart :: "int list \<Rightarrow> interval_var \<Rightarrow> interval_var \<Rightarrow> bool" where
  "apart a i j = (a ! iv_end i \<le> a ! iv_start j \<or> a ! iv_end j \<le> a ! iv_start i)"

fun no_overlap :: "int list \<Rightarrow> interval_var list \<Rightarrow> bool" where
  "no_overlap a [] = True"
| "no_overlap a (i # is) = (list_all (apart a i) is \<and> no_overlap a is)"

fun sat :: "int list \<Rightarrow> constr \<Rightarrow> bool" where
  "sat a (Linear e r f) = rel_holds r (expr_value a e) (expr_value a f)"
| "sat a (AllDifferent es) = distinct (map (expr_value a) es)"
| "sat a (Interval i) = (a ! iv_start i + iv_size i = a ! iv_end i)"
| "sat a (NoOverlap is) = no_overlap a is"
| "sat a (MaxEquality t es) =
     (list_ex (\<lambda>e. expr_value a t = expr_value a e) es \<and>
      list_all (\<lambda>e. expr_value a e \<le> expr_value a t) es)"
| "sat a (ExactlyOne ls) = (length (filter (lit_holds a) ls) = 1)"
| "sat a (AtMostOne ls) = (length (filter (lit_holds a) ls) \<le> 1)"
| "sat a (BoolOr ls) = list_ex (lit_holds a) ls"
| "sat a (OnlyEnforceIf c l) = (if lit_holds a l then sat a c else True)"

definition in_domain :: "int \<times> int \<Rightarrow> int \<Rightarrow> bool" where
  "in_domain d x = (fst d \<le> x \<and> x \<le> snd d)"

definition feasible :: "cp_model \<Rightarrow> int list \<Rightarrow> bool" where
  "feasible m a = (list_all2 in_domain (domains m) a \<and> list_all (sat a) (constraints m))"

subsection \<open>Running the engine\<close>

text \<open>
  The engine itself is outside the repository. With \<^verbatim>\<open>enumerate_all_solutions\<close> set and
  a callback given, \<^verbatim>\<open>solver.solve(model, callback)\<close> calls the callback once for each
  solution it finds, in the order of discovery; that order is the engine's own, so the
  sequence of delivered solutions \<open>found\<close> is a parameter of the embedding. A search that
  runs to exhaustion delivers every solution of the model exactly once.
\<close>

definition solve_with_callback :: "int list list \<Rightarrow> (int list \<Rightarrow> 'p \<Rightarrow> 'p) \<Rightarrow> 'p \<Rightarrow> 'p" where
  "solve_with_callback found callback p = fold callback found p"

definition enumerates_all :: "cp_model \<Rightarrow> int list list \<Rightarrow> bool" where
  "enumerates_all m found = (distinct found \<and> set found = {a. feasible m a})"

subsection \<open>Python idioms used by the scripts\<close>

text \<open>
  A loop whose body can raise (a dictionary read with a missing key is a \<^verbatim>\<open>KeyError\<close>)
  is a fold that stops at the first \<open>None\<close>. The built-in \<^verbatim>\<open>sum\<close> adds the elements
  to 0 from the left.
\<close>

fun fold_option :: "('a \<Rightarrow> 's \<Rightarrow> 's option) \<Rightarrow> 'a list \<Rightarrow> 's \<Rightarrow> 's option" where
  "fold_option f [] s = Some s"
| "fold_option f (x # xs) s = (case f x s of None \<Rightarrow> None | Some s' \<Rightarrow> fold_option f xs s')"

definition py_sum :: "linexpr list \<Rightarrow> linexpr" where
  "py_sum es = foldl Add (Const 0) es"

section \<open>The cryptarithm CP + IS + FUN = TRUE\<close>

text \<open>
  \<^verbatim>\<open>src/sat-cp/cryptarithmetic.py\<close>. The solution printer counts the solutions the
  engine delivers and prints the values of its variables; the printed lines are kept as
  a list. \<^verbatim>\<open>main\<close> creates ten digit variables in the order \<^verbatim>\<open>C P I S F U N T R E\<close>,
  asserts that the base has enough digits (a failed assertion is the value \<open>None\<close>),
  posts the all-different constraint and the column-weighted equality, and runs the
  engine with the printer as callback.
\<close>

record var_array_solution_printer =
  printer_variables :: "nat list"
  solution_count :: nat
  printed :: "int list list"

definition VarArraySolutionPrinter :: "nat list \<Rightarrow> var_array_solution_printer" where
  "VarArraySolutionPrinter variables =
     \<lparr>printer_variables = variables, solution_count = 0, printed = []\<rparr>"

definition on_solution_callback ::
  "int list \<Rightarrow> var_array_solution_printer \<Rightarrow> var_array_solution_printer" where
  "on_solution_callback a p =
     p\<lparr>solution_count := solution_count p + 1,
       printed := printed p @ [map (\<lambda>v. a ! v) (printer_variables p)]\<rparr>"

definition cryptarithmetic_equation ::
  "int \<Rightarrow> nat \<Rightarrow> nat \<Rightarrow> nat \<Rightarrow> nat \<Rightarrow> nat \<Rightarrow> nat \<Rightarrow> nat \<Rightarrow> nat \<Rightarrow> nat \<Rightarrow> nat \<Rightarrow> constr" where
  "cryptarithmetic_equation base c p i s f u n t r e =
     Linear
       (Add (Add (Add (Add (Add (Add (Mul (Var c) base) (Var p)) (Mul (Var i) base)) (Var s))
          (Mul (Mul (Var f) base) base)) (Mul (Var u) base)) (Var n))
       EQ
       (Add (Add (Add (Mul (Mul (Mul (Var t) base) base) base) (Mul (Mul (Var r) base) base))
          (Mul (Var u) base)) (Var e))"

text \<open>The model and the letter list of \<^verbatim>\<open>main\<close> at the moment it calls the engine.\<close>

definition cryptarithmetic_model :: "(cp_model \<times> nat list) option" where
  "cryptarithmetic_model =
     (let model = CpModel;
          base = 10;
          (c, model) = new_int_var 1 (base - 1) model;
          (p, model) = new_int_var 0 (base - 1) model;
          (i, model) = new_int_var 1 (base - 1) model;
          (s, model) = new_int_var 0 (base - 1) model;
          (f, model) = new_int_var 1 (base - 1) model;
          (u, model) = new_int_var 0 (base - 1) model;
          (n, model) = new_int_var 0 (base - 1) model;
          (t, model) = new_int_var 1 (base - 1) model;
          (r, model) = new_int_var 0 (base - 1) model;
          (e, model) = new_int_var 0 (base - 1) model;
          letters = [c, p, i, s, f, u, n, t, r, e]
      in if base \<ge> int (length letters)
         then Some (add (cryptarithmetic_equation base c p i s f u n t r e)
                 (add (AllDifferent (map Var letters)) model), letters)
         else None)"

text \<open>
  \<^verbatim>\<open>main\<close> from the call of the engine on: the printer after the engine has delivered
  the solutions \<open>found\<close>, in that order.
\<close>

definition cryptarithmetic_main :: "int list list \<Rightarrow> var_array_solution_printer option" where
  "cryptarithmetic_main found =
     (case cryptarithmetic_model of
        None \<Rightarrow> None
      | Some (model, letters) \<Rightarrow>
          Some (solve_with_callback found on_solution_callback (VarArraySolutionPrinter letters)))"

section \<open>The N-queens model\<close>

text \<open>
  \<^verbatim>\<open>main(board_size)\<close> of \<^verbatim>\<open>src/sat-cp/n-queens.py\<close> up to the call of the engine:
  one variable per column holding the row of that column's queen, and three
  all-different constraints, over the rows and over both diagonals. The result is the
  model together with the list \<^verbatim>\<open>queens\<close>.
\<close>

definition n_queens_main :: "int \<Rightarrow> cp_model \<times> nat list" where
  "n_queens_main board_size =
     (let model = CpModel;
          (queens, model) =
             fold (\<lambda>i (queens, model).
                     let (q, model) = new_int_var 0 (board_size - 1) model
                     in (queens @ [q], model))
               [0..<nat board_size] ([], model);
          model = add (AllDifferent (map Var queens)) model;
          model = add (AllDifferent
                    (map (\<lambda>i. Add (Var (queens ! i)) (Const (int i))) [0..<nat board_size])) model;
          model = add (AllDifferent
                    (map (\<lambda>i. Sub (Var (queens ! i)) (Const (int i))) [0..<nat board_size])) model
      in (model, queens))"

section \<open>The nurse rostering model\<close>

text \<open>
  \<^verbatim>\<open>main\<close> of \<^verbatim>\<open>src/nurse-shift.py\<close> up to the call of the engine. The dictionary
  \<^verbatim>\<open>shifts\<close> maps (nurse, day, shift) to a Boolean variable. Each loop of \<^verbatim>\<open>main\<close> is
  one definition; the result is the model, the dictionary and the two fairness bounds.
\<close>

type_synonym shifts_dict = "nat \<times> nat \<times> nat \<rightharpoonup> nat"

definition create_shift_vars ::
  "nat list \<Rightarrow> nat list \<Rightarrow> nat list \<Rightarrow> shifts_dict \<times> cp_model \<Rightarrow> shifts_dict \<times> cp_model" where
  "create_shift_vars all_nurses all_days all_shifts =
     fold (\<lambda>n. fold (\<lambda>d. fold (\<lambda>s (shifts, model).
        let (v, model) = new_bool_var model in (shifts((n, d, s) \<mapsto> v), model))
      all_shifts) all_days) all_nurses"

definition add_exactly_one_nurse ::
  "shifts_dict \<Rightarrow> nat list \<Rightarrow> nat list \<Rightarrow> nat list \<Rightarrow> cp_model \<Rightarrow> cp_model option" where
  "add_exactly_one_nurse shifts all_nurses all_days all_shifts =
     fold_option (\<lambda>d. fold_option (\<lambda>s model.
        map_option (\<lambda>vs. add (ExactlyOne (map Pos vs)) model)
          (those (map (\<lambda>n. shifts (n, d, s)) all_nurses)))
      all_shifts) all_days"

definition add_at_most_one_shift ::
  "shifts_dict \<Rightarrow> nat list \<Rightarrow> nat list \<Rightarrow> nat list \<Rightarrow> cp_model \<Rightarrow> cp_model option" where
  "add_at_most_one_shift shifts all_nurses all_days all_shifts =
     fold_option (\<lambda>n. fold_option (\<lambda>d model.
        map_option (\<lambda>vs. add (AtMostOne (map Pos vs)) model)
          (those (map (\<lambda>s. shifts (n, d, s)) all_shifts)))
      all_days) all_nurses"

definition add_shift_bounds ::
  "shifts_dict \<Rightarrow> nat list \<Rightarrow> nat list \<Rightarrow> nat list \<Rightarrow> nat \<Rightarrow> nat \<Rightarrow> cp_model
     \<Rightarrow> cp_model option" where
  "add_shift_bounds shifts all_nurses all_days all_shifts min_shifts_per_nurse
       max_shifts_per_nurse =
     fold_option (\<lambda>n model.
        map_option (\<lambda>shifts_worked.
            add (Linear (py_sum (map Var shifts_worked)) LE (Const (int max_shifts_per_nurse)))
              (add (Linear (Const (int min_shifts_per_nurse)) LE (py_sum (map Var shifts_worked)))
                 model))
          (those (map (\<lambda>(d, s). shifts (n, d, s)) (List.product all_days all_shifts))))
      all_nurses"

definition nurse_shift_main :: "(cp_model \<times> shifts_dict \<times> nat \<times> nat) option" where
  "nurse_shift_main =
     (let num_nurses = 4;
          num_shifts = 3;
          num_days = 3;
          all_nurses = [0..<num_nurses];
          all_shifts = [0..<num_shifts];
          all_days = [0..<num_days];
          model = CpModel;
          (shifts, model) = create_shift_vars all_nurses all_days all_shifts (Map.empty, model)
      in case add_exactly_one_nurse shifts all_nurses all_days all_shifts model of
           None \<Rightarrow> None
         | Some model \<Rightarrow>
        (case add_at_most_one_shift shifts all_nurses all_days all_shifts model of
           None \<Rightarrow> None
         | Some model \<Rightarrow>
        (let min_shifts_per_nurse = (num_shifts * num_days) div num_nurses;
             max_shifts_per_nurse =
               (if num_shifts * num_days mod num_nurses = 0 then min_shifts_per_nurse
                else min_shifts_per_nurse + 1)
         in case add_shift_bounds shifts all_nurses all_days all_shifts min_shifts_per_nurse
                   max_shifts_per_nurse model of
              None \<Rightarrow> None
            | Some model \<Rightarrow>
                Some (model, shifts, min_shifts_per_nurse, max_shifts_per_nurse))))"

text \<open>
  What the solution printer reads from a solution: whether nurse \<open>n\<close> works shift \<open>s\<close>
  on day \<open>d\<close> (\<^verbatim>\<open>self.value(self._shifts[(n, d, s)])\<close> taken as a truth value).
\<close>

definition works :: "int list \<Rightarrow> shifts_dict \<Rightarrow> nat \<Rightarrow> nat \<Rightarrow> nat \<Rightarrow> bool" where
  "works a shifts n d s = (case shifts (n, d, s) of None \<Rightarrow> False | Some v \<Rightarrow> a ! v \<noteq> 0)"

section \<open>The job-shop model\<close>

text \<open>
  \<^verbatim>\<open>main\<close> of \<^verbatim>\<open>src/job-shop.py\<close> up to the call of the engine, as a function of
  \<^verbatim>\<open>jobs_data\<close>: a list of jobs, each a list of tasks \<open>(machine, duration)\<close>. The
  dictionary \<^verbatim>\<open>all_tasks\<close> maps (job, task index) to the task's start, end and interval
  variables; \<^verbatim>\<open>machine_to_intervals\<close> is a default dictionary, an absent machine reads as
  the empty list. \<^verbatim>\<open>max\<close> of no tasks raises, as does the read of a job's last task
  when the job is empty (the key \<open>(job, -1)\<close> is never stored): both are \<open>None\<close>.
\<close>

type_synonym jobs = "(nat \<times> int) list list"

record task_type =
  task_start :: nat
  task_end :: nat
  task_interval :: interval_var

type_synonym tasks_dict = "nat \<times> nat \<rightharpoonup> task_type"

record job_shop_state =
  model_of :: cp_model
  all_tasks :: tasks_dict
  machine_to_intervals :: "nat \<Rightarrow> interval_var list"

fun py_max :: "nat list \<Rightarrow> nat option" where
  "py_max [] = None"
| "py_max (x # xs) = Some (fold max xs x)"

definition job_shop_horizon :: "jobs \<Rightarrow> int" where
  "job_shop_horizon jobs_data = sum_list (map snd (concat jobs_data))"

definition create_task_vars ::
  "int \<Rightarrow> nat \<Rightarrow> nat \<times> (nat \<times> int) \<Rightarrow> job_shop_state \<Rightarrow> job_shop_state" where
  "create_task_vars horizon job_id = (\<lambda>(task_id, (machine, duration)) st.
     let model = model_of st;
         (start_var, model) = new_int_var 0 horizon model;
         (end_var, model) = new_int_var 0 horizon model;
         (interval_var, model) = new_interval_var start_var duration end_var model
     in st\<lparr>model_of := model,
           all_tasks := (all_tasks st)((job_id, task_id) \<mapsto>
              \<lparr>task_start = start_var, task_end = end_var, task_interval = interval_var\<rparr>),
           machine_to_intervals := (machine_to_intervals st)
              (machine := machine_to_intervals st machine @ [interval_var])\<rparr>)"

definition create_all_task_vars :: "int \<Rightarrow> jobs \<Rightarrow> job_shop_state \<Rightarrow> job_shop_state" where
  "create_all_task_vars horizon jobs_data =
     fold (\<lambda>(job_id, job). fold (create_task_vars horizon job_id) (enumerate 0 job))
       (enumerate 0 jobs_data)"

definition add_no_overlaps :: "(nat \<Rightarrow> interval_var list) \<Rightarrow> nat list \<Rightarrow> cp_model \<Rightarrow> cp_model" where
  "add_no_overlaps intervals all_machines =
     fold (\<lambda>machine. add (NoOverlap (intervals machine))) all_machines"

definition add_precedence :: "tasks_dict \<Rightarrow> nat \<Rightarrow> nat \<Rightarrow> cp_model \<Rightarrow> cp_model option" where
  "add_precedence tasks job_id task_id model =
     (case tasks (job_id, task_id + 1) of
        None \<Rightarrow> None
      | Some next_task \<Rightarrow>
          (case tasks (job_id, task_id) of
             None \<Rightarrow> None
           | Some this_task \<Rightarrow>
               Some (add (Linear (Var (task_start next_task)) GE (Var (task_end this_task)))
                       model)))"

definition add_precedences :: "tasks_dict \<Rightarrow> jobs \<Rightarrow> cp_model \<Rightarrow> cp_model option" where
  "add_precedences tasks jobs_data =
     fold_option (\<lambda>(job_id, job).
        fold_option (add_precedence tasks job_id) [0..<length job - 1])
       (enumerate 0 jobs_data)"

definition last_task_ends :: "tasks_dict \<Rightarrow> jobs \<Rightarrow> nat list option" where
  "last_task_ends tasks jobs_data =
     those (map (\<lambda>(job_id, job).
        if job = [] then None
        else map_option task_end (tasks (job_id, length job - 1)))
       (enumerate 0 jobs_data))"

text \<open>The result: the model, the dictionary \<^verbatim>\<open>all_tasks\<close> and the makespan variable.\<close>

definition job_shop_main :: "jobs \<Rightarrow> (cp_model \<times> tasks_dict \<times> nat) option" where
  "job_shop_main jobs_data =
     (case py_max (map fst (concat jobs_data)) of
        None \<Rightarrow> None
      | Some largest \<Rightarrow>
          (let machines_count = 1 + largest;
               all_machines = [0..<machines_count];
               horizon = job_shop_horizon jobs_data;
               model = CpModel;
               st = create_all_task_vars horizon jobs_data
                      \<lparr>model_of = model, all_tasks = Map.empty,
                       machine_to_intervals = (\<lambda>machine. [])\<rparr>;
               model = add_no_overlaps (machine_to_intervals st) all_machines (model_of st)
           in case add_precedences (all_tasks st) jobs_data model of
                None \<Rightarrow> None
              | Some model \<Rightarrow>
                  (let (obj_var, model) = new_int_var 0 horizon model
                   in case last_task_ends (all_tasks st) jobs_data of
                        None \<Rightarrow> None
                      | Some ends \<Rightarrow>
                          Some (minimize (Var obj_var)
                                  (add (MaxEquality (Var obj_var) (map Var ends)) model),
                                all_tasks st, obj_var))))"

text \<open>The data of \<^verbatim>\<open>src/job-shop.py\<close>.\<close>

definition job_shop_jobs_data :: jobs where
  "job_shop_jobs_data =
     [[(0, 3), (1, 2), (2, 2)],
      [(0, 2), (2, 1), (1, 4)],
      [(1, 4), (2, 3)]]"

section \<open>Auxiliary definitions for the proofs\<close>

text \<open>
  The solutions of the cryptarithm, computed by a search that the theorems below prove
  complete: the carries force \<open>T = 1\<close>, \<open>R = 0\<close> and \<open>F = 9\<close>, and the other letters take
  different digits from 2 to 8.
\<close>

definition pick :: "int list \<Rightarrow> (int \<Rightarrow> int list list) \<Rightarrow> int list list" where
  "pick used k = concat (map k (filter (\<lambda>d. d \<notin> set used) [2, 3, 4, 5, 6, 7, 8]))"

definition cryptarithmetic_solutions :: "int list list" where
  "cryptarithmetic_solutions =
     pick [] (\<lambda>c. pick [c] (\<lambda>i. pick [c, i] (\<lambda>p. pick [c, i, p] (\<lambda>s.
     pick [c, i, p, s] (\<lambda>n. pick [c, i, p, s, n] (\<lambda>e.
       if 10 * (c + i) + p + s + n = 100 + e
       then pick [c, i, p, s, n, e] (\<lambda>u. [[c, p, i, s, 9, u, n, 1, 0, e]])
       else []))))))"

text \<open>
  The solutions of the N-queens model, column by column: \<open>place n k\<close> lists the safe
  placements of queens in the first \<open>k\<close> columns of an \<open>n\<close>-row board.
\<close>

definition queen_ok :: "int list \<Rightarrow> int \<Rightarrow> bool" where
  "queen_ok qs q =
     list_all (\<lambda>(i, x). x \<noteq> q \<and> x + int i \<noteq> q + int (length qs) \<and> x - int i \<noteq> q - int (length qs))
       (enumerate 0 qs)"

fun place :: "nat \<Rightarrow> nat \<Rightarrow> int list list" where
  "place n 0 = [[]]"
| "place n (Suc k) =
     concat (map (\<lambda>qs. map (\<lambda>q. qs @ [q]) (filter (queen_ok qs) (map int [0..<n]))) (place n k))"

definition queens_safe :: "nat \<Rightarrow> int list \<Rightarrow> bool" where
  "queens_safe n qs =
     ((\<forall>i < length qs. 0 \<le> qs ! i \<and> qs ! i < int n)
      \<and> distinct qs
      \<and> distinct (map (\<lambda>i. qs ! i + int i) [0..<length qs])
      \<and> distinct (map (\<lambda>i. qs ! i - int i) [0..<length qs]))"

text \<open>
  For the rostering model: the index of the variable \<^verbatim>\<open>shifts[(n, d, s)]\<close>, the
  constraints of the model in closed form, and one roster that satisfies them.
\<close>

definition shift_var :: "nat \<Rightarrow> nat \<Rightarrow> nat \<Rightarrow> nat" where
  "shift_var n d s = (n * 3 + d) * 3 + s"

definition roster_example :: "int list" where
  "roster_example =
     [1, 0, 0,  0, 1, 0,  0, 0, 1,
      0, 1, 0,  0, 0, 1,  0, 0, 0,
      0, 0, 1,  0, 0, 0,  1, 0, 0,
      0, 0, 0,  1, 0, 0,  0, 1, 0]"

definition roster_constraints :: "constr list" where
  "roster_constraints =
     concat (map (\<lambda>d. map (\<lambda>s. ExactlyOne (map (\<lambda>n. Pos (shift_var n d s)) [0..<4]))
       [0..<3]) [0..<3])
     @ concat (map (\<lambda>n. map (\<lambda>d. AtMostOne (map (\<lambda>s. Pos (shift_var n d s)) [0..<3]))
       [0..<3]) [0..<4])
     @ concat (map (\<lambda>n.
        [Linear (Const 2) LE
           (py_sum (map Var (map (\<lambda>(d, s). shift_var n d s) (List.product [0..<3] [0..<3])))),
         Linear (py_sum (map Var (map (\<lambda>(d, s). shift_var n d s) (List.product [0..<3] [0..<3]))))
           LE (Const 3)]) [0..<4])"

section \<open>Basic facts about models\<close>

lemma feasible_length:
  "feasible m a \<Longrightarrow> length a = length (domains m)"
  unfolding feasible_def by (auto dest: list_all2_lengthD)

lemma list_all2_replicate_left:
  "list_all2 P (replicate n d) a \<longleftrightarrow> length a = n \<and> (\<forall>i < length a. P d (a ! i))"
  by (auto simp: list_all2_conv_all_nth)

lemma upt_add_Suc: "[k..<Suc (k + n)] = k # [Suc k..<Suc (k + n)]"
  by (simp add: upt_conv_Cons)

lemma those_map_Some:
  "(\<And>x. x \<in> set xs \<Longrightarrow> f x = Some (g x)) \<Longrightarrow> those (map f xs) = Some (map g xs)"
  by (induction xs) simp_all

lemma fold_option_appends:
  assumes "\<And>x m. x \<in> set xs \<Longrightarrow> f x m = Some (m\<lparr>constraints := constraints m @ cs x\<rparr>)"
  shows "fold_option f xs m = Some (m\<lparr>constraints := constraints m @ concat (map cs xs)\<rparr>)"
  using assms by (induction xs arbitrary: m) simp_all

lemma concat_map_singleton: "concat (map (\<lambda>x. [c x]) xs) = map c xs"
  by (induction xs) simp_all

lemma feasible_sat:
  "feasible m a \<Longrightarrow> c \<in> set (constraints m) \<Longrightarrow> sat a c"
  unfolding feasible_def list_all_iff by blast

lemma feasible_in_domain:
  "feasible m a \<Longrightarrow> v < length (domains m) \<Longrightarrow> in_domain (domains m ! v) (a ! v)"
  unfolding feasible_def list_all2_conv_all_nth by blast

lemma in_concat_map_map:
  "x \<in> set xs \<Longrightarrow> y \<in> set ys \<Longrightarrow> c x y \<in> set (concat (map (\<lambda>x. map (c x) ys) xs))"
  by auto

lemma in_concat_map_pair:
  "x \<in> set xs \<Longrightarrow> c1 x \<in> set (concat (map (\<lambda>x. [c1 x, c2 x]) xs))
     \<and> c2 x \<in> set (concat (map (\<lambda>x. [c1 x, c2 x]) xs))"
  by auto

lemma length_filter_map_upt:
  "length (filter P (map f [0..<N])) = card {n. n < N \<and> P (f n)}"
proof -
  have "length (filter P (map f [0..<N])) = length (filter (P \<circ> f) [0..<N])"
    by (simp add: filter_map)
  also have "\<dots> = card ({n. (P \<circ> f) n} \<inter> set [0..<N])"
    by (rule distinct_length_filter) simp
  also have "{n. (P \<circ> f) n} \<inter> set [0..<N] = {n. n < N \<and> P (f n)}"
    by auto
  finally show ?thesis .
qed

lemma length_filter_map_product:
  "length (filter P (map f (List.product [0..<D] [0..<S])))
     = card {(d, s). d < D \<and> s < S \<and> P (f (d, s))}"
proof -
  have "length (filter P (map f (List.product [0..<D] [0..<S])))
      = length (filter (P \<circ> f) (List.product [0..<D] [0..<S]))"
    by (simp add: filter_map)
  also have "\<dots> = card ({k. (P \<circ> f) k} \<inter> set (List.product [0..<D] [0..<S]))"
    by (rule distinct_length_filter) (simp add: distinct_product)
  also have "{k. (P \<circ> f) k} \<inter> set (List.product [0..<D] [0..<S])
      = {(d, s). d < D \<and> s < S \<and> P (f (d, s))}"
    by auto
  finally show ?thesis .
qed

lemma expr_value_foldl_Add:
  "expr_value a (foldl Add e es) = expr_value a e + sum_list (map (expr_value a) es)"
  by (induction es arbitrary: e) simp_all

lemma expr_value_py_sum:
  "expr_value a (py_sum (map Var vs)) = sum_list (map (\<lambda>v. a ! v) vs)"
  by (simp add: py_sum_def expr_value_foldl_Add o_def)

lemma sum_list_zero_one:
  assumes "\<forall>v \<in> set vs. a ! v = 0 \<or> a ! v = (1::int)"
  shows "sum_list (map (\<lambda>v. a ! v) vs) = int (length (filter (\<lambda>v. a ! v \<noteq> 0) vs))"
  using assms by (induction vs) auto

lemma card_eq_1_ex1: "card {n. P n} = 1 \<Longrightarrow> \<exists>!n. P n"
proof -
  assume "card {n. P n} = 1"
  then obtain x where "{n. P n} = {x}"
    by (auto simp: card_1_singleton_iff)
  then show ?thesis
    by (metis mem_Collect_eq singletonD singletonI)
qed

section \<open>Properties of the cryptarithm model\<close>

lemma cryptarithmetic_model_eq:
  "cryptarithmetic_model = Some
    (\<lparr>domains = [(1, 9), (0, 9), (1, 9), (0, 9), (1, 9), (0, 9), (0, 9), (1, 9), (0, 9), (0, 9)],
      constraints = [AllDifferent (map Var [0, 1, 2, 3, 4, 5, 6, 7, 8, 9]),
                     cryptarithmetic_equation 10 0 1 2 3 4 5 6 7 8 9],
      objective = None\<rparr>, [0, 1, 2, 3, 4, 5, 6, 7, 8, 9])"
  by (simp add: cryptarithmetic_model_def CpModel_def new_int_var_def add_def Let_def
      eval_nat_numeral)

lemma length_10_cases:
  assumes "length (a :: int list) = 10"
  obtains c p i s f u n t r e where "a = [c, p, i, s, f, u, n, t, r, e]"
proof -
  from assms obtain c a1 where "a = c # a1" "length a1 = 9" by (cases a) auto
  moreover then obtain p a2 where "a1 = p # a2" "length a2 = 8" by (cases a1) auto
  moreover then obtain i a3 where "a2 = i # a3" "length a3 = 7" by (cases a2) auto
  moreover then obtain s a4 where "a3 = s # a4" "length a4 = 6" by (cases a3) auto
  moreover then obtain f a5 where "a4 = f # a5" "length a5 = 5" by (cases a4) auto
  moreover then obtain u a6 where "a5 = u # a6" "length a6 = 4" by (cases a5) auto
  moreover then obtain n a7 where "a6 = n # a7" "length a7 = 3" by (cases a6) auto
  moreover then obtain t a8 where "a7 = t # a8" "length a8 = 2" by (cases a7) auto
  moreover then obtain r a9 where "a8 = r # a9" "length a9 = 1" by (cases a8) auto
  moreover then obtain e where "a9 = [e]" by (cases a9) auto
  ultimately show ?thesis using that by blast
qed

lemma equation_sat:
  "sat a (cryptarithmetic_equation base c p i s f u n t r e) \<longleftrightarrow>
     a ! c * base + a ! p + a ! i * base + a ! s + a ! f * base * base + a ! n
       = a ! t * base * base * base + a ! r * base * base + a ! e"
  by (simp add: cryptarithmetic_equation_def) linarith

lemma equation_ignores_U:
  assumes "u \<notin> {c, p, i, s, f, n, t, r, e}"
  shows "sat (a[u := x]) (cryptarithmetic_equation base c p i s f u n t r e)
     = sat (a[u := y]) (cryptarithmetic_equation base c p i s f u n t r e)"
  using assms by (simp add: equation_sat nth_list_update)

text \<open>
  C10. In the equality posted by \<^verbatim>\<open>main\<close> the variable \<open>U\<close> (index 5) carries
  the coefficient \<open>base\<close> on both sides, so whether an assignment satisfies the equality
  does not depend on the value of \<open>U\<close>: overwriting it by any two values gives the same
  truth value. An assignment is therefore a solution exactly when it respects the
  domains, gives the ten letters different values and satisfies the equality with
  \<open>U\<close> set to any fixed value (here 0).
\<close>

theorem cryptarithmetic_equation_ignores_U:
  "\<exists>m letters. cryptarithmetic_model = Some (m, letters)
     \<and> constraints m ! 1 = cryptarithmetic_equation 10 0 1 2 3 4 5 6 7 8 9
     \<and> (\<forall>a x y. sat (a[5 := x]) (constraints m ! 1) = sat (a[5 := y]) (constraints m ! 1))
     \<and> (\<forall>a. feasible m a \<longleftrightarrow>
          list_all2 in_domain (domains m) a \<and> distinct a \<and> sat (a[5 := 0]) (constraints m ! 1))"
proof -
  let ?E = "cryptarithmetic_equation 10 0 1 2 3 4 5 6 7 8 9"
  have ins: "sat (a[5 := x]) ?E = sat (a[5 := y]) ?E" for a x y
    by (rule equation_ignores_U) simp
  have feas: "feasible m a \<longleftrightarrow>
      list_all2 in_domain (domains m) a \<and> distinct a \<and> sat (a[5 := 0]) ?E"
    if m: "cryptarithmetic_model = Some (m, letters)" for m letters a
  proof (cases "length a = 10")
    case True
    then obtain c p i s f u n t r e where a: "a = [c, p, i, s, f, u, n, t, r, e]"
      by (rule length_10_cases)
    have "sat a ?E = sat (a[5 := 0]) ?E"
      using ins [of a "a ! 5" 0] by simp
    moreover have "map (expr_value a) (map Var [0, 1, 2, 3, 4, 5, 6, 7, 8, 9]) = a"
      by (simp add: a)
    ultimately show ?thesis
      using m by (auto simp: cryptarithmetic_model_eq feasible_def simp del: map_map)
  next
    case False
    then show ?thesis
      using m by (auto simp: cryptarithmetic_model_eq feasible_def dest: list_all2_lengthD)
  qed
  show ?thesis
    using ins feas by (simp add: cryptarithmetic_model_eq)
qed

theorem cryptarithmetic_equation_ignores_U_witness:
  "feasible (fst (the cryptarithmetic_model)) [2, 3, 7, 4, 9, 6, 8, 1, 0, 5]
   \<and> sat ([2, 3, 7, 4, 9, 6, 8, 1, 0, 5][5 := 0])
       (constraints (fst (the cryptarithmetic_model)) ! 1)"
proof -
  let ?a = "[2, 3, 7, 4, 9, 6, 8, 1, 0, 5 :: int]"
  from cryptarithmetic_equation_ignores_U obtain m letters where
    m: "cryptarithmetic_model = Some (m, letters)" and
    f: "\<forall>a. feasible m a \<longleftrightarrow>
          list_all2 in_domain (domains m) a \<and> distinct a \<and> sat (a[5 := 0]) (constraints m ! 1)"
    by (elim exE conjE)
  have 1: "list_all2 in_domain (domains m) ?a"
    using m by (auto simp: cryptarithmetic_model_eq in_domain_def)
  have 2: "distinct ?a"
    by simp
  have 3: "sat (?a[5 := 0]) (constraints m ! 1)"
    using m by (auto simp: cryptarithmetic_model_eq equation_sat eval_nat_numeral)
  from 1 2 3 f have 4: "feasible m ?a"
    by blast
  from m have "fst (the cryptarithmetic_model) = m"
    by (metis option.sel fst_conv)
  with 3 4 show ?thesis
    by blast
qed

subsection \<open>The 72 solutions\<close>

lemma digit_2_8: "d \<in> set [2, 3, 4, 5, 6, 7, 8 :: int] \<longleftrightarrow> 2 \<le> d \<and> d \<le> 8"
  by (simp del: One_nat_def) presburger

lemma in_pick: "x \<in> set (pick used k) \<longleftrightarrow> (\<exists>d. 2 \<le> d \<and> d \<le> 8 \<and> d \<notin> set used \<and> x \<in> set (k d))"
proof -
  have "x \<in> set (pick used k) \<longleftrightarrow>
      (\<exists>d. d \<in> set [2, 3, 4, 5, 6, 7, 8] \<and> d \<notin> set used \<and> x \<in> set (k d))"
    unfolding pick_def set_concat set_map set_filter by blast
  then show ?thesis
    unfolding digit_2_8 by (simp add: conj_assoc)
qed

lemma in_pickI:
  "2 \<le> d \<Longrightarrow> d \<le> 8 \<Longrightarrow> d \<notin> set used \<Longrightarrow> x \<in> set (k d) \<Longrightarrow> x \<in> set (pick used k)"
  unfolding in_pick by blast

lemma in_pickE:
  assumes "x \<in> set (pick used k)"
  obtains d where "2 \<le> d" "d \<le> 8" "d \<notin> set used" "x \<in> set (k d)"
  using assms unfolding in_pick by blast


lemma cryptarithmetic_feasible_iff:
  assumes "cryptarithmetic_model = Some (m, letters)"
  shows "feasible m [c, p, i, s, f, u, n, t, r, e] \<longleftrightarrow>
        distinct [c, p, i, s, f, u, n, t, r, e]
        \<and> (1 \<le> c \<and> c \<le> 9 \<and> 0 \<le> p \<and> p \<le> 9 \<and> 1 \<le> i \<and> i \<le> 9 \<and> 0 \<le> s \<and> s \<le> 9
        \<and> 1 \<le> f \<and> f \<le> 9 \<and> 0 \<le> u \<and> u \<le> 9 \<and> 0 \<le> n \<and> n \<le> 9 \<and> 1 \<le> t \<and> t \<le> 9
        \<and> 0 \<le> r \<and> r \<le> 9 \<and> 0 \<le> e \<and> e \<le> 9)
        \<and> 10 * c + p + 10 * i + s + 100 * f + n = 1000 * t + 100 * r + e"
proof -
  let ?a = "[c, p, i, s, f, u, n, t, r, e]"
  have 1: "map (expr_value ?a) (map Var [0, 1, 2, 3, 4, 5, 6, 7, 8, 9]) = ?a"
    by simp
  have 2: "sat ?a (cryptarithmetic_equation 10 0 1 2 3 4 5 6 7 8 9) \<longleftrightarrow>
     10 * c + p + 10 * i + s + 100 * f + n = 1000 * t + 100 * r + e"
    by (simp add: equation_sat) linarith
  have 3: "list_all2 in_domain
      [(1, 9), (0, 9), (1, 9), (0, 9), (1, 9), (0, 9), (0, 9), (1, 9), (0, 9), (0, 9)] ?a \<longleftrightarrow>
      1 \<le> c \<and> c \<le> 9 \<and> 0 \<le> p \<and> p \<le> 9 \<and> 1 \<le> i \<and> i \<le> 9 \<and> 0 \<le> s \<and> s \<le> 9
        \<and> 1 \<le> f \<and> f \<le> 9 \<and> 0 \<le> u \<and> u \<le> 9 \<and> 0 \<le> n \<and> n \<le> 9 \<and> 1 \<le> t \<and> t \<le> 9
        \<and> 0 \<le> r \<and> r \<le> 9 \<and> 0 \<le> e \<and> e \<le> 9"
    by (simp add: in_domain_def)
  have "feasible m ?a \<longleftrightarrow>
      list_all2 in_domain
        [(1, 9), (0, 9), (1, 9), (0, 9), (1, 9), (0, 9), (0, 9), (1, 9), (0, 9), (0, 9)] ?a
      \<and> distinct (map (expr_value ?a) (map Var [0, 1, 2, 3, 4, 5, 6, 7, 8, 9]))
      \<and> sat ?a (cryptarithmetic_equation 10 0 1 2 3 4 5 6 7 8 9)"
    using assms unfolding cryptarithmetic_model_eq feasible_def by auto
  then show ?thesis
    unfolding 1 2 3 by blast
qed

lemma cryptarithmetic_forced:
  fixes c p i s f u n t r e :: int
  assumes d: "distinct [c, p, i, s, f, u, n, t, r, e]"
    and b: "1 \<le> c \<and> c \<le> 9 \<and> 0 \<le> p \<and> p \<le> 9 \<and> 1 \<le> i \<and> i \<le> 9 \<and> 0 \<le> s \<and> s \<le> 9
        \<and> 1 \<le> f \<and> f \<le> 9 \<and> 0 \<le> u \<and> u \<le> 9 \<and> 0 \<le> n \<and> n \<le> 9 \<and> 1 \<le> t \<and> t \<le> 9
        \<and> 0 \<le> r \<and> r \<le> 9 \<and> 0 \<le> e \<and> e \<le> 9"
    and eq: "10 * c + p + 10 * i + s + 100 * f + n = 1000 * t + 100 * r + e"
  shows "t = 1 \<and> r = 0 \<and> f = 9"
proof -
  have t: "t = 1" using b eq by linarith
  have "r \<le> 1" using b eq t by linarith
  moreover have "r \<noteq> t" using d by auto
  ultimately have r: "r = 0" using b t by linarith
  have "c \<noteq> i" using d by auto
  then have "c + i \<le> 17" using b by linarith
  then have f: "f = 9" using b eq t r by linarith
  show ?thesis using t r f by simp
qed


lemma cryptarithmetic_feasible_set:
  assumes "cryptarithmetic_model = Some (m, letters)"
  shows "{a. feasible m a} = set cryptarithmetic_solutions"
proof (intro set_eqI iffI)
  fix a assume "a \<in> {a. feasible m a}"
  then have fa: "feasible m a" by simp
  then have "length a = 10"
    using assms by (auto simp: cryptarithmetic_model_eq dest: feasible_length)
  then obtain c p i s f u n t r e where a: "a = [c, p, i, s, f, u, n, t, r, e]"
    by (rule length_10_cases)
  from fa have d: "distinct [c, p, i, s, f, u, n, t, r, e]"
    and b: "1 \<le> c \<and> c \<le> 9 \<and> 0 \<le> p \<and> p \<le> 9 \<and> 1 \<le> i \<and> i \<le> 9 \<and> 0 \<le> s \<and> s \<le> 9
        \<and> 1 \<le> f \<and> f \<le> 9 \<and> 0 \<le> u \<and> u \<le> 9 \<and> 0 \<le> n \<and> n \<le> 9 \<and> 1 \<le> t \<and> t \<le> 9
        \<and> 0 \<le> r \<and> r \<le> 9 \<and> 0 \<le> e \<and> e \<le> 9"
    and eq: "10 * c + p + 10 * i + s + 100 * f + n = 1000 * t + 100 * r + e"
    unfolding a cryptarithmetic_feasible_iff [OF assms] by blast+
  from cryptarithmetic_forced [OF d b eq] have trf: "t = 1" "r = 0" "f = 9"
    by simp_all
  have rng: "2 \<le> x \<and> x \<le> 8" if "x \<in> {c, p, i, s, u, n, e}" for x
  proof -
    from that d have "x \<noteq> t" "x \<noteq> r" "x \<noteq> f" by auto
    moreover from that b have "0 \<le> x" "x \<le> 9" by auto
    ultimately show ?thesis using trf by linarith
  qed
  have eq': "10 * (c + i) + p + s + n = 100 + e"
    using eq trf by simp
  have nc: "c \<notin> set []" and ni: "i \<notin> set [c]" and np: "p \<notin> set [c, i]"
    and ns: "s \<notin> set [c, i, p]" and nn: "n \<notin> set [c, i, p, s]"
    and ne: "e \<notin> set [c, i, p, s, n]" and nu: "u \<notin> set [c, i, p, s, n, e]"
    using d by auto
  have rc: "2 \<le> c" "c \<le> 8" and ri: "2 \<le> i" "i \<le> 8" and rp: "2 \<le> p" "p \<le> 8"
    and rs: "2 \<le> s" "s \<le> 8" and rn: "2 \<le> n" "n \<le> 8" and re: "2 \<le> e" "e \<le> 8"
    and ru: "2 \<le> u" "u \<le> 8"
    using rng by simp_all
  have "[c, p, i, s, 9, u, n, 1, 0, e] \<in> set cryptarithmetic_solutions"
    unfolding cryptarithmetic_solutions_def
    apply (rule in_pickI [where d = c, OF rc nc])
    apply (rule in_pickI [where d = i, OF ri ni])
    apply (rule in_pickI [where d = p, OF rp np])
    apply (rule in_pickI [where d = s, OF rs ns])
    apply (rule in_pickI [where d = n, OF rn nn])
    apply (rule in_pickI [where d = e, OF re ne])
    apply (subst if_P [OF eq'])
    apply (rule in_pickI [where d = u, OF ru nu])
    apply simp
    done
  then show "a \<in> set cryptarithmetic_solutions"
    using a trf by simp
next
  fix a assume "a \<in> set cryptarithmetic_solutions"
  then obtain c i p s n e where
        c: "2 \<le> c" "c \<le> 8" "c \<notin> set []"
    and i: "2 \<le> i" "i \<le> 8" "i \<notin> set [c]"
    and p: "2 \<le> p" "p \<le> 8" "p \<notin> set [c, i]"
    and s: "2 \<le> s" "s \<le> 8" "s \<notin> set [c, i, p]"
    and n: "2 \<le> n" "n \<le> 8" "n \<notin> set [c, i, p, s]"
    and e: "2 \<le> e" "e \<le> 8" "e \<notin> set [c, i, p, s, n]"
    and rest: "a \<in> set (if 10 * (c + i) + p + s + n = 100 + e
       then pick [c, i, p, s, n, e] (\<lambda>u. [[c, p, i, s, 9, u, n, 1, 0, e]])
       else [])"
    unfolding cryptarithmetic_solutions_def by (elim in_pickE)
  from rest have eq: "10 * (c + i) + p + s + n = 100 + e"
    by (auto split: if_splits)
  with rest obtain u where u: "2 \<le> u" "u \<le> 8" "u \<notin> set [c, i, p, s, n, e]"
    and a: "a = [c, p, i, s, 9, u, n, 1, 0, e]"
    by (auto elim!: in_pickE)
  have d: "distinct [c, p, i, s, 9, u, n, 1, 0, e]"
    using c i p s n e u by auto
  have b: "1 \<le> c \<and> c \<le> 9 \<and> 0 \<le> p \<and> p \<le> 9 \<and> 1 \<le> i \<and> i \<le> 9 \<and> 0 \<le> s \<and> s \<le> 9
        \<and> 1 \<le> (9::int) \<and> (9::int) \<le> 9 \<and> 0 \<le> u \<and> u \<le> 9 \<and> 0 \<le> n \<and> n \<le> 9
        \<and> 1 \<le> (1::int) \<and> (1::int) \<le> 9 \<and> 0 \<le> (0::int) \<and> (0::int) \<le> 9 \<and> 0 \<le> e \<and> e \<le> 9"
    using c(1,2) i(1,2) p(1,2) s(1,2) n(1,2) e(1,2) u(1,2) by simp
  have eq': "10 * c + p + 10 * i + s + 100 * 9 + n = 1000 * 1 + 100 * 0 + e"
    using eq by simp
  have "feasible m a"
    unfolding a cryptarithmetic_feasible_iff [OF assms]
    using d b eq' by blast
  then show "a \<in> {a. feasible m a}" by simp
qed

lemma cryptarithmetic_solutions_count:
  "length cryptarithmetic_solutions = 72 \<and> distinct cryptarithmetic_solutions"
  by code_simp

lemma solve_with_callback_count:
  "solution_count (solve_with_callback found on_solution_callback p)
     = solution_count p + length found"
  unfolding solve_with_callback_def
  by (induction found arbitrary: p) (simp_all add: on_solution_callback_def)

text \<open>
  C2. The model built for \<^verbatim>\<open>CP + IS + FUN = TRUE\<close> in base 10 has exactly 72 solutions,
  and whenever the engine's enumeration runs to exhaustion (it delivers every solution
  exactly once), the printer's solution count at the end of \<^verbatim>\<open>main\<close> is 72.
\<close>

theorem cryptarithmetic_has_72_solutions:
  "\<exists>m letters. cryptarithmetic_model = Some (m, letters)
     \<and> finite {a. feasible m a} \<and> card {a. feasible m a} = 72
     \<and> (\<forall>found. enumerates_all m found \<longrightarrow>
          (\<exists>p. cryptarithmetic_main found = Some p \<and> solution_count p = 72))"
proof -
  obtain m letters where m: "cryptarithmetic_model = Some (m, letters)"
    using cryptarithmetic_model_eq by blast
  have s: "{a. feasible m a} = set cryptarithmetic_solutions"
    by (rule cryptarithmetic_feasible_set [OF m])
  have c: "card {a. feasible m a} = 72"
    unfolding s using cryptarithmetic_solutions_count by (simp add: distinct_card)
  have "\<exists>p. cryptarithmetic_main found = Some p \<and> solution_count p = 72"
    if "enumerates_all m found" for found
  proof -
    from that have "length found = card {a. feasible m a}"
      unfolding enumerates_all_def by (metis distinct_card)
    then show ?thesis
      unfolding cryptarithmetic_main_def m
      by (simp add: c solve_with_callback_count VarArraySolutionPrinter_def)
  qed
  with m s c show ?thesis
    by auto
qed

theorem cryptarithmetic_has_72_solutions_witness:
  "enumerates_all (fst (the cryptarithmetic_model)) cryptarithmetic_solutions
   \<and> map_option solution_count (cryptarithmetic_main cryptarithmetic_solutions) = Some 72"
proof -
  from cryptarithmetic_has_72_solutions obtain m letters where
    m: "cryptarithmetic_model = Some (m, letters)" and
    e: "\<forall>found. enumerates_all m found \<longrightarrow>
          (\<exists>p. cryptarithmetic_main found = Some p \<and> solution_count p = 72)"
    by (elim exE conjE)
  have 1: "enumerates_all m cryptarithmetic_solutions"
    unfolding enumerates_all_def
    using cryptarithmetic_feasible_set [OF m] cryptarithmetic_solutions_count by simp
  with e obtain p where "cryptarithmetic_main cryptarithmetic_solutions = Some p"
    "solution_count p = 72"
    by blast
  moreover from m have "fst (the cryptarithmetic_model) = m"
    by (metis option.sel fst_conv)
  ultimately show ?thesis
    using 1 by simp
qed

section \<open>Properties of the N-queens model\<close>

lemma fold_new_int_var:
  "fold (\<lambda>i (queens, model).
           let (q, model) = new_int_var lb ub model in (queens @ [q], model)) xs (qs, m)
   = (qs @ [length (domains m)..<length (domains m) + length xs],
      m\<lparr>domains := domains m @ replicate (length xs) (lb, ub)\<rparr>)"
proof -
  define F where "F = (\<lambda>(i::'a) (queens, model).
           let (q, model) = new_int_var lb ub model in (queens @ [q], model))"
  have step: "F i (qs, m) = (qs @ [length (domains m)], m\<lparr>domains := domains m @ [(lb, ub)]\<rparr>)"
    for i qs m
    by (simp add: F_def new_int_var_def)
  have "fold F xs (qs, m)
     = (qs @ [length (domains m)..<length (domains m) + length xs],
        m\<lparr>domains := domains m @ replicate (length xs) (lb, ub)\<rparr>)"
  proof (induction xs arbitrary: qs m)
    case Nil
    show ?case by simp
  next
    case (Cons x xs)
    show ?case
      by (simp add: step Cons.IH upt_add_Suc replicate_app_Cons_same del: upt_Suc)
  qed
  then show ?thesis
    unfolding F_def .
qed

lemma n_queens_main_eq:
  "n_queens_main (int n) =
     (\<lparr>domains = replicate n (0, int n - 1),
       constraints =
         [AllDifferent (map Var [0..<n]),
          AllDifferent (map (\<lambda>i. Add (Var i) (Const (int i))) [0..<n]),
          AllDifferent (map (\<lambda>i. Sub (Var i) (Const (int i))) [0..<n])],
       objective = None\<rparr>, [0..<n])"
  unfolding n_queens_main_def fold_new_int_var
  by (simp add: CpModel_def add_def cong: map_cong)


lemma n_queens_feasible_iff:
  "feasible (fst (n_queens_main (int n))) a \<longleftrightarrow> length a = n \<and> queens_safe n a"
proof (cases "length a = n")
  case True
  have 1: "list_all2 in_domain (replicate n (0, int n - 1)) a
      \<longleftrightarrow> (\<forall>i < length a. 0 \<le> a ! i \<and> a ! i < int n)"
    unfolding list_all2_replicate_left in_domain_def using True by auto
  have 2: "map (expr_value a) (map Var [0..<n]) = a"
    unfolding True [symmetric] by (simp add: map_nth o_def)
  have 3: "map (expr_value a) (map (\<lambda>i. Add (Var i) (Const (int i))) [0..<n])
      = map (\<lambda>i. a ! i + int i) [0..<length a]"
    unfolding True [symmetric] by simp
  have 4: "map (expr_value a) (map (\<lambda>i. Sub (Var i) (Const (int i))) [0..<n])
      = map (\<lambda>i. a ! i - int i) [0..<length a]"
    unfolding True [symmetric] by simp
  have "feasible (fst (n_queens_main (int n))) a \<longleftrightarrow>
      list_all2 in_domain (replicate n (0, int n - 1)) a
      \<and> distinct (map (expr_value a) (map Var [0..<n]))
      \<and> distinct (map (expr_value a) (map (\<lambda>i. Add (Var i) (Const (int i))) [0..<n]))
      \<and> distinct (map (expr_value a) (map (\<lambda>i. Sub (Var i) (Const (int i))) [0..<n]))"
    by (simp only: n_queens_main_eq feasible_def fst_conv cp_model.select_convs
        list.pred_inject sat.simps simp_thms)
  then show ?thesis
    unfolding 1 2 3 4 queens_safe_def using True by blast
next
  case False
  then show ?thesis
    by (auto simp: n_queens_main_eq dest: feasible_length)
qed

lemma queen_ok_iff:
  "queen_ok qs q \<longleftrightarrow>
     (\<forall>i < length qs. qs ! i \<noteq> q)
     \<and> (\<forall>i < length qs. qs ! i + int i \<noteq> q + int (length qs))
     \<and> (\<forall>i < length qs. qs ! i - int i \<noteq> q - int (length qs))"
  unfolding queen_ok_def by (simp add: list_all_length nth_enumerate_eq) blast

lemma distinct_map_snoc:
  assumes "\<And>i. i < length qs \<Longrightarrow> f i = g i"
  shows "distinct (map f [0..<length (qs @ [q])]) \<longleftrightarrow>
     distinct (map g [0..<length qs]) \<and> (\<forall>i < length qs. g i \<noteq> f (length qs))"
proof -
  have "map f [0..<length (qs @ [q])] = map g [0..<length qs] @ [f (length qs)]"
    using assms by simp
  moreover have "f (length qs) \<notin> set (map g [0..<length qs]) \<longleftrightarrow>
      (\<forall>i < length qs. g i \<noteq> f (length qs))"
    by (simp add: image_iff Ball_def) metis
  ultimately show ?thesis
    by (simp only: distinct_append distinct.simps list.set) auto
qed

lemma queens_safe_snoc:
  "queens_safe n (qs @ [q]) \<longleftrightarrow> queens_safe n qs \<and> 0 \<le> q \<and> q < int n \<and> queen_ok qs q"
proof -
  have A: "(\<forall>i < length (qs @ [q]). 0 \<le> (qs @ [q]) ! i \<and> (qs @ [q]) ! i < int n) \<longleftrightarrow>
      (\<forall>i < length qs. 0 \<le> qs ! i \<and> qs ! i < int n) \<and> 0 \<le> q \<and> q < int n"
    by (auto simp: nth_append less_Suc_eq)
  have B: "distinct (qs @ [q]) \<longleftrightarrow> distinct qs \<and> (\<forall>i < length qs. qs ! i \<noteq> q)"
    by (auto simp: in_set_conv_nth)
  have C: "distinct (map (\<lambda>i. (qs @ [q]) ! i + int i) [0..<length (qs @ [q])]) \<longleftrightarrow>
      distinct (map (\<lambda>i. qs ! i + int i) [0..<length qs])
      \<and> (\<forall>i < length qs. qs ! i + int i \<noteq> q + int (length qs))"
    by (subst distinct_map_snoc [where g = "\<lambda>i. qs ! i + int i"]) (simp_all add: nth_append)
  have D: "distinct (map (\<lambda>i. (qs @ [q]) ! i - int i) [0..<length (qs @ [q])]) \<longleftrightarrow>
      distinct (map (\<lambda>i. qs ! i - int i) [0..<length qs])
      \<and> (\<forall>i < length qs. qs ! i - int i \<noteq> q - int (length qs))"
    by (subst distinct_map_snoc [where g = "\<lambda>i. qs ! i - int i"]) (simp_all add: nth_append)
  show ?thesis
    unfolding queens_safe_def queen_ok_iff A B C D by blast
qed


lemma set_place:
  "set (place n k) = {qs. length qs = k \<and> queens_safe n qs}"
proof (induction k)
  case 0
  show ?case by (auto simp: queens_safe_def)
next
  case (Suc k)
  have step: "qs \<in> set (place n (Suc k)) \<longleftrightarrow>
      (\<exists>ps q. qs = ps @ [q] \<and> ps \<in> set (place n k) \<and> 0 \<le> q \<and> q < int n \<and> queen_ok ps q)"
    for qs
  proof -
    have "q \<in> int ` {0..<n} \<longleftrightarrow> 0 \<le> q \<and> q < int n" for q
    proof
      assume "0 \<le> q \<and> q < int n"
      then show "q \<in> int ` {0..<n}"
        by (intro image_eqI [where x = "nat q"]) auto
    qed auto
    then show ?thesis
      by (simp add: image_iff Bex_def) blast
  qed
  show ?case
  proof (intro set_eqI iffI)
    fix qs assume "qs \<in> set (place n (Suc k))"
    then obtain ps q where "ps \<in> set (place n k)" "queen_ok ps q" "0 \<le> q" "q < int n"
      "qs = ps @ [q]"
      unfolding step by blast
    then show "qs \<in> {qs. length qs = Suc k \<and> queens_safe n qs}"
      using Suc.IH by (simp add: queens_safe_snoc)
  next
    fix qs assume "qs \<in> {qs. length qs = Suc k \<and> queens_safe n qs}"
    then have l: "length qs = Suc k" and s: "queens_safe n qs" by simp_all
    from l obtain ps q where qs: "qs = ps @ [q]" and lp: "length ps = k"
      by (cases qs rule: rev_cases) auto
    from s have "queens_safe n ps" "0 \<le> q" "q < int n" "queen_ok ps q"
      unfolding qs queens_safe_snoc by simp_all
    moreover from this(1) lp have "ps \<in> set (place n k)"
      using Suc.IH by simp
    ultimately show "qs \<in> set (place n (Suc k))"
      unfolding step using qs by blast
  qed
qed

lemma place_8_count: "length (remdups (place 8 8)) = 92"
  by code_simp

text \<open>
  C3. The model that \<^verbatim>\<open>main\<close> builds for \<^verbatim>\<open>board_size = 8\<close> (eight variables with domain
  0..7, all-different over the rows, over row plus column and over row minus column)
  has exactly 92 solutions.
\<close>

theorem n_queens_8_has_92_solutions:
  "card {a. feasible (fst (n_queens_main 8)) a} = 92"
proof -
  have "{a. feasible (fst (n_queens_main (int 8))) a} = set (place 8 8)"
    unfolding n_queens_feasible_iff set_place by simp
  then have "card {a. feasible (fst (n_queens_main (int 8))) a} = length (remdups (place 8 8))"
    by (simp only: card_set)
  then show ?thesis
    by (simp add: place_8_count)
qed

section \<open>Properties of the rostering model\<close>

lemma new_bool_var_eq:
  "new_bool_var m = (length (domains m), m\<lparr>domains := domains m @ [(0, 1)]\<rparr>)"
  by (simp add: new_bool_var_def new_int_var_def)

lemma create_shift_vars_shifts:
  "fold (\<lambda>s (shifts, model).
        let (v, model) = new_bool_var model in (shifts((n, d, s) \<mapsto> v), model)) [0..<S]
      (sh :: shifts_dict, m)
   = (\<lambda>key. if \<exists>s<S. key = (n, d, s) then Some (length (domains m) + snd (snd key)) else sh key,
      m\<lparr>domains := domains m @ replicate S (0, 1)\<rparr>)"
proof -
  define F where "F = (\<lambda>(s::nat) (shifts :: shifts_dict, model).
        let (v, model) = new_bool_var model in (shifts((n, d, s) \<mapsto> v), model))"
  have step: "F s (sh, m) = (sh((n, d, s) \<mapsto> length (domains m)), m\<lparr>domains := domains m @ [(0, 1)]\<rparr>)"
    for s sh m
    by (simp add: F_def new_bool_var_eq)
  have "fold F [0..<S] (sh, m)
   = (\<lambda>key. if \<exists>s<S. key = (n, d, s) then Some (length (domains m) + snd (snd key)) else sh key,
      m\<lparr>domains := domains m @ replicate S (0, 1)\<rparr>)"
  proof (induction S)
    case 0
    show ?case by simp
  next
    case (Suc S)
    show ?case
      by (auto simp: Suc.IH step fun_eq_iff less_Suc_eq replicate_append_same)
  qed
  then show ?thesis
    unfolding F_def .
qed

lemma create_shift_vars_days:
  "fold (\<lambda>d. fold (\<lambda>s (shifts, model).
        let (v, model) = new_bool_var model in (shifts((n, d, s) \<mapsto> v), model)) [0..<S])
     [0..<D] (sh :: shifts_dict, m)
   = (\<lambda>key. if \<exists>d<D. \<exists>s<S. key = (n, d, s)
             then Some (length (domains m) + fst (snd key) * S + snd (snd key)) else sh key,
      m\<lparr>domains := domains m @ replicate (D * S) (0, 1)\<rparr>)"
proof (induction D)
  case 0
  show ?case by simp
next
  case (Suc D)
  show ?case
    unfolding upt_Suc_append [OF le0] fold_append comp_def Suc.IH fold_simps create_shift_vars_shifts
    by (auto simp: fun_eq_iff less_Suc_eq replicate_add [symmetric] add.commute)
qed

lemma create_shift_vars_eq:
  "create_shift_vars [0..<N] [0..<D] [0..<S] (sh, m)
   = (\<lambda>key. if \<exists>n<N. \<exists>d<D. \<exists>s<S. key = (n, d, s)
             then Some (length (domains m) + (fst key * D + fst (snd key)) * S + snd (snd key))
             else sh key,
      m\<lparr>domains := domains m @ replicate (N * D * S) (0, 1)\<rparr>)"
  unfolding create_shift_vars_def
proof (induction N)
  case 0
  show ?case by simp
next
  case (Suc N)
  show ?case
    unfolding upt_Suc_append [OF le0] fold_append comp_def Suc.IH fold_simps create_shift_vars_days
    by (auto simp: fun_eq_iff less_Suc_eq replicate_add [symmetric] algebra_simps)
qed


lemma add_exactly_one_nurse_eq:
  assumes "\<forall>n\<in>set ns. \<forall>d\<in>set ds. \<forall>s\<in>set ss. sh (n, d, s) = Some (v n d s)"
  shows "add_exactly_one_nurse sh ns ds ss m =
     Some (m\<lparr>constraints := constraints m @
        concat (map (\<lambda>d. map (\<lambda>s. ExactlyOne (map (\<lambda>n. Pos (v n d s)) ns)) ss) ds)\<rparr>)"
  unfolding add_exactly_one_nurse_def
proof (rule fold_option_appends)
  fix d m assume d: "d \<in> set ds"
  have "fold_option (\<lambda>s model. map_option (\<lambda>vs. add (ExactlyOne (map Pos vs)) model)
          (those (map (\<lambda>n. sh (n, d, s)) ns))) ss m
      = Some (m\<lparr>constraints := constraints m @
          concat (map (\<lambda>s. [ExactlyOne (map (\<lambda>n. Pos (v n d s)) ns)]) ss)\<rparr>)"
  proof (rule fold_option_appends)
    fix s m assume s: "s \<in> set ss"
    have "those (map (\<lambda>n. sh (n, d, s)) ns) = Some (map (\<lambda>n. v n d s) ns)"
      using assms d s by (intro those_map_Some) simp
    then show "map_option (\<lambda>vs. add (ExactlyOne (map Pos vs)) m)
          (those (map (\<lambda>n. sh (n, d, s)) ns))
        = Some (m\<lparr>constraints := constraints m @ [ExactlyOne (map (\<lambda>n. Pos (v n d s)) ns)]\<rparr>)"
      by (simp add: add_def o_def)
  qed
  then show "fold_option (\<lambda>s model. map_option (\<lambda>vs. add (ExactlyOne (map Pos vs)) model)
          (those (map (\<lambda>n. sh (n, d, s)) ns))) ss m
      = Some (m\<lparr>constraints := constraints m @
          map (\<lambda>s. ExactlyOne (map (\<lambda>n. Pos (v n d s)) ns)) ss\<rparr>)"
    by (simp only: concat_map_singleton)
qed

lemma add_at_most_one_shift_eq:
  assumes "\<forall>n\<in>set ns. \<forall>d\<in>set ds. \<forall>s\<in>set ss. sh (n, d, s) = Some (v n d s)"
  shows "add_at_most_one_shift sh ns ds ss m =
     Some (m\<lparr>constraints := constraints m @
        concat (map (\<lambda>n. map (\<lambda>d. AtMostOne (map (\<lambda>s. Pos (v n d s)) ss)) ds) ns)\<rparr>)"
  unfolding add_at_most_one_shift_def
proof (rule fold_option_appends)
  fix n m assume n: "n \<in> set ns"
  have "fold_option (\<lambda>d model. map_option (\<lambda>vs. add (AtMostOne (map Pos vs)) model)
          (those (map (\<lambda>s. sh (n, d, s)) ss))) ds m
      = Some (m\<lparr>constraints := constraints m @
          concat (map (\<lambda>d. [AtMostOne (map (\<lambda>s. Pos (v n d s)) ss)]) ds)\<rparr>)"
  proof (rule fold_option_appends)
    fix d m assume d: "d \<in> set ds"
    have "those (map (\<lambda>s. sh (n, d, s)) ss) = Some (map (\<lambda>s. v n d s) ss)"
      using assms n d by (intro those_map_Some) simp
    then show "map_option (\<lambda>vs. add (AtMostOne (map Pos vs)) m)
          (those (map (\<lambda>s. sh (n, d, s)) ss))
        = Some (m\<lparr>constraints := constraints m @ [AtMostOne (map (\<lambda>s. Pos (v n d s)) ss)]\<rparr>)"
      by (simp add: add_def o_def)
  qed
  then show "fold_option (\<lambda>d model. map_option (\<lambda>vs. add (AtMostOne (map Pos vs)) model)
          (those (map (\<lambda>s. sh (n, d, s)) ss))) ds m
      = Some (m\<lparr>constraints := constraints m @
          map (\<lambda>d. AtMostOne (map (\<lambda>s. Pos (v n d s)) ss)) ds\<rparr>)"
    by (simp only: concat_map_singleton)
qed

lemma add_shift_bounds_eq:
  assumes "\<forall>n\<in>set ns. \<forall>d\<in>set ds. \<forall>s\<in>set ss. sh (n, d, s) = Some (v n d s)"
  shows "add_shift_bounds sh ns ds ss lo hi m =
     Some (m\<lparr>constraints := constraints m @
        concat (map (\<lambda>n.
          [Linear (Const (int lo)) LE
             (py_sum (map Var (map (\<lambda>(d, s). v n d s) (List.product ds ss)))),
           Linear (py_sum (map Var (map (\<lambda>(d, s). v n d s) (List.product ds ss)))) LE
             (Const (int hi))]) ns)\<rparr>)"
  unfolding add_shift_bounds_def
proof (rule fold_option_appends)
  fix n m assume n: "n \<in> set ns"
  have "those (map (\<lambda>(d, s). sh (n, d, s)) (List.product ds ss))
      = Some (map (\<lambda>(d, s). v n d s) (List.product ds ss))"
    using assms n by (intro those_map_Some) auto
  then show "map_option (\<lambda>shifts_worked.
            add (Linear (py_sum (map Var shifts_worked)) LE (Const (int hi)))
              (add (Linear (Const (int lo)) LE (py_sum (map Var shifts_worked))) m))
          (those (map (\<lambda>(d, s). sh (n, d, s)) (List.product ds ss)))
      = Some (m\<lparr>constraints := constraints m @
          [Linear (Const (int lo)) LE
             (py_sum (map Var (map (\<lambda>(d, s). v n d s) (List.product ds ss)))),
           Linear (py_sum (map Var (map (\<lambda>(d, s). v n d s) (List.product ds ss)))) LE
             (Const (int hi))]\<rparr>)"
    by (simp add: add_def del: map_map)
qed


lemma nurse_shift_main_eq:
  "\<exists>shifts. nurse_shift_main = Some
      (\<lparr>domains = replicate 36 (0, 1),
        constraints = roster_constraints,
        objective = None\<rparr>, shifts, 2, 3)
    \<and> (\<forall>n<4. \<forall>d<3. \<forall>s<3. shifts (n, d, s) = Some (shift_var n d s))"
proof -
  define sh :: shifts_dict where "sh = (\<lambda>key. if \<exists>n<4. \<exists>d<3. \<exists>s<3. key = (n, d, s)
             then Some (length (domains CpModel) + (fst key * 3 + fst (snd key)) * 3 + snd (snd key))
             else Map.empty key)"
  define m0 where "m0 = CpModel\<lparr>domains := domains CpModel @ replicate (4 * 3 * 3) (0, 1)\<rparr>"
  have c: "create_shift_vars [0..<4] [0..<3] [0..<3] (Map.empty, CpModel) = (sh, m0)"
    unfolding sh_def m0_def by (rule create_shift_vars_eq)
  have look: "\<forall>n\<in>set [0..<4]. \<forall>d\<in>set [0..<3]. \<forall>s\<in>set [0..<3].
      sh (n, d, s) = Some (shift_var n d s)"
    by (auto simp: sh_def shift_var_def CpModel_def)
  note e = add_exactly_one_nurse_eq [of "[0..<4]" "[0..<3]" "[0..<3]" sh shift_var, OF look]
  note a = add_at_most_one_shift_eq [of "[0..<4]" "[0..<3]" "[0..<3]" sh shift_var, OF look]
  note b = add_shift_bounds_eq [of "[0..<4]" "[0..<3]" "[0..<3]" sh shift_var, OF look]
  have "nurse_shift_main = Some
      (\<lparr>domains = replicate 36 (0, 1),
        constraints = roster_constraints,
        objective = None\<rparr>, sh, 2, 3)"
    unfolding nurse_shift_main_def Let_def c prod.case roster_constraints_def
    by (simp add: e a b m0_def CpModel_def del: map_map)
  moreover have "\<forall>n<4. \<forall>d<3. \<forall>s<3. sh (n, d, s) = Some (shift_var n d s)"
    using look by simp
  ultimately show ?thesis
    by blast
qed


lemma shift_var_less: "n < 4 \<Longrightarrow> d < 3 \<Longrightarrow> s < 3 \<Longrightarrow> shift_var n d s < 36"
  unfolding shift_var_def by (simp add: algebra_simps)

text \<open>
  C6. For 4 nurses, 3 shifts a day and 3 days, \<^verbatim>\<open>main\<close> derives the bounds
  \<open>min_shifts_per_nurse = 9 div 4 = 2\<close> and \<open>max_shifts_per_nurse = 3\<close> (9 is not a
  multiple of 4), and in every solution of the model each (day, shift) pair is worked by
  exactly one nurse, each nurse works at most one shift a day, and each nurse works 2 or
  3 shifts in total.
\<close>

theorem nurse_roster_fair:
  "\<exists>model shifts. nurse_shift_main = Some (model, shifts, 2, 3)
     \<and> (\<forall>a. feasible model a \<longrightarrow>
          (\<forall>d<3. \<forall>s<3. \<exists>!n. n < 4 \<and> works a shifts n d s)
        \<and> (\<forall>n<4. \<forall>d<3. card {s. s < 3 \<and> works a shifts n d s} \<le> 1)
        \<and> (\<forall>n<4. card {(d, s). d < 3 \<and> s < 3 \<and> works a shifts n d s} \<in> {2, 3}))"
proof -
  let ?E = "\<lambda>d s. ExactlyOne (map (\<lambda>n. Pos (shift_var n d s)) [0..<4])"
  let ?A = "\<lambda>n d. AtMostOne (map (\<lambda>s. Pos (shift_var n d s)) [0..<3])"
  let ?S = "\<lambda>n. py_sum (map Var (map (\<lambda>(d, s). shift_var n d s) (List.product [0..<3] [0..<3])))"
  let ?cs = "concat (map (\<lambda>d. map (?E d) [0..<3]) [0..<3])
          @ concat (map (\<lambda>n. map (?A n) [0..<3]) [0..<4])
          @ concat (map (\<lambda>n. [Linear (Const 2) LE (?S n), Linear (?S n) LE (Const 3)]) [0..<4])"
  from nurse_shift_main_eq obtain shifts where
    main: "nurse_shift_main = Some
      (\<lparr>domains = replicate 36 (0, 1), constraints = ?cs, objective = None\<rparr>, shifts, 2, 3)"
    and look: "\<forall>n<4. \<forall>d<3. \<forall>s<3. shifts (n, d, s) = Some (shift_var n d s)"
    unfolding roster_constraints_def by blast
  let ?M = "\<lparr>domains = replicate 36 (0, 1), constraints = ?cs, objective = None\<rparr>"
  have "(\<forall>d<3. \<forall>s<3. \<exists>!n. n < 4 \<and> works a shifts n d s)
        \<and> (\<forall>n<4. \<forall>d<3. card {s. s < 3 \<and> works a shifts n d s} \<le> 1)
        \<and> (\<forall>n<4. card {(d, s). d < 3 \<and> s < 3 \<and> works a shifts n d s} \<in> {2, 3})"
    if feas: "feasible ?M a" for a
  proof -
    have bits: "a ! v = 0 \<or> a ! v = 1" if "v < 36" for v
    proof -
      have "in_domain (domains ?M ! v) (a ! v)"
        by (rule feasible_in_domain [OF feas]) (simp add: that)
      then have "0 \<le> a ! v \<and> a ! v \<le> 1"
        using that by (simp add: in_domain_def)
      then show ?thesis by linarith
    qed
    have sat: "sat a c" if "c \<in> set ?cs" for c
      by (rule feasible_sat [OF feas]) (simp only: cp_model.select_convs that)
    have w: "works a shifts n d s \<longleftrightarrow> a ! shift_var n d s \<noteq> 0" if "n < 4" "d < 3" "s < 3" for n d s
      using that look by (simp add: works_def)
    have one: "\<exists>!n. n < 4 \<and> works a shifts n d s" if d: "d < 3" and s: "s < 3" for d s
    proof -
      have "?E d s \<in> set (concat (map (\<lambda>d. map (?E d) [0..<3]) [0..<3]))"
        by (rule in_concat_map_map) (use d s in simp_all)
      then have "?E d s \<in> set ?cs"
        by (simp only: set_append Un_iff simp_thms)
      then have "sat a (?E d s)" by (rule sat)
      then have "card {n. n < 4 \<and> lit_holds a (Pos (shift_var n d s))} = 1"
        by (simp only: sat.simps length_filter_map_upt)
      moreover have "{n. n < 4 \<and> lit_holds a (Pos (shift_var n d s))}
          = {n. n < 4 \<and> works a shifts n d s}"
        using w d s by auto
      ultimately show ?thesis
        by (simp only: card_eq_1_ex1)
    qed
    have most: "card {s. s < 3 \<and> works a shifts n d s} \<le> 1" if n: "n < 4" and d: "d < 3" for n d
    proof -
      have "?A n d \<in> set (concat (map (\<lambda>n. map (?A n) [0..<3]) [0..<4]))"
        by (rule in_concat_map_map) (use n d in simp_all)
      then have "?A n d \<in> set ?cs"
        by (simp only: set_append Un_iff simp_thms)
      then have "sat a (?A n d)" by (rule sat)
      then have "card {s. s < 3 \<and> lit_holds a (Pos (shift_var n d s))} \<le> 1"
        by (simp only: sat.simps length_filter_map_upt)
      moreover have "{s. s < 3 \<and> lit_holds a (Pos (shift_var n d s))}
          = {s. s < 3 \<and> works a shifts n d s}"
        using w n d by auto
      ultimately show ?thesis
        by simp
    qed
    have total: "card {(d, s). d < 3 \<and> s < 3 \<and> works a shifts n d s} \<in> {2, 3}" if n: "n < 4" for n
    proof -
      let ?vs = "map (\<lambda>(d, s). shift_var n d s) (List.product [0..<3] [0..<3])"
      have "n \<in> set [0..<4]"
        using n by simp
      from in_concat_map_pair [OF this, of "\<lambda>n. Linear (Const 2) LE (?S n)"
          "\<lambda>n. Linear (?S n) LE (Const 3)"]
      have m1: "Linear (Const 2) LE (?S n) \<in> set ?cs"
        and m2: "Linear (?S n) LE (Const 3) \<in> set ?cs"
        by (simp_all only: set_append Un_iff simp_thms)
      have "sat a (Linear (Const 2) LE (?S n))" "sat a (Linear (?S n) LE (Const 3))"
        by (rule sat [OF m1], rule sat [OF m2])
      then have b: "2 \<le> sum_list (map (\<lambda>v. a ! v) ?vs)" "sum_list (map (\<lambda>v. a ! v) ?vs) \<le> 3"
        by (simp_all only: sat.simps rel_holds.simps expr_value_py_sum expr_value.simps)
      have "\<forall>v \<in> set ?vs. a ! v = 0 \<or> a ! v = 1"
        using n by (auto intro!: bits shift_var_less)
      then have "sum_list (map (\<lambda>v. a ! v) ?vs) = int (length (filter (\<lambda>v. a ! v \<noteq> 0) ?vs))"
        by (rule sum_list_zero_one)
      also have "length (filter (\<lambda>v. a ! v \<noteq> 0) ?vs)
          = card {(d, s). d < 3 \<and> s < 3 \<and> a ! (case (d, s) of (d, s) \<Rightarrow> shift_var n d s) \<noteq> 0}"
        by (rule length_filter_map_product)
      also have "{(d, s). d < 3 \<and> s < 3 \<and> a ! (case (d, s) of (d, s) \<Rightarrow> shift_var n d s) \<noteq> 0}
          = {(d, s). d < 3 \<and> s < 3 \<and> works a shifts n d s}"
        using w n by auto
      finally show ?thesis
        using b by auto
    qed
    from one most total show ?thesis by blast
  qed
  with main show ?thesis
    by blast
qed


lemma roster_example_feasible:
  "feasible \<lparr>domains = replicate 36 (0, 1), constraints = roster_constraints, objective = None\<rparr>
     roster_example"
  by code_simp

theorem nurse_roster_fair_witness:
  "feasible (fst (the nurse_shift_main)) roster_example
   \<and> card {(d, s). d < 3 \<and> s < 3
         \<and> works roster_example (fst (snd (the nurse_shift_main))) 0 d s} \<in> {2, 3}"
proof -
  from nurse_roster_fair obtain model shifts where
    m: "nurse_shift_main = Some (model, shifts, 2, 3)" and
    p: "\<forall>a. feasible model a \<longrightarrow>
          (\<forall>d<3. \<forall>s<3. \<exists>!n. n < 4 \<and> works a shifts n d s)
        \<and> (\<forall>n<4. \<forall>d<3. card {s. s < 3 \<and> works a shifts n d s} \<le> 1)
        \<and> (\<forall>n<4. card {(d, s). d < 3 \<and> s < 3 \<and> works a shifts n d s} \<in> {2, 3})"
    by (elim exE conjE)
  have sel: "fst (the nurse_shift_main) = model" "fst (snd (the nurse_shift_main)) = shifts"
    by (simp_all add: m)
  from nurse_shift_main_eq obtain shifts' where
    e: "nurse_shift_main = Some (\<lparr>domains = replicate 36 (0, 1),
          constraints = roster_constraints, objective = None\<rparr>, shifts', 2, 3)"
    by blast
  have "fst (the nurse_shift_main)
      = \<lparr>domains = replicate 36 (0, 1), constraints = roster_constraints, objective = None\<rparr>"
    by (simp add: e)
  then have f: "feasible model roster_example"
    using roster_example_feasible unfolding sel by simp
  with p have "\<forall>n<4. card {(d, s). d < 3 \<and> s < 3 \<and> works roster_example shifts n d s} \<in> {2, 3}"
    by blast
  then have "card {(d, s). d < 3 \<and> s < 3 \<and> works roster_example shifts 0 d s} \<in> {2, 3}"
    by simp
  with f show ?thesis
    unfolding sel by simp
qed

end
